theory Spec2Isabelle
  imports Main
begin

section \<open>The replay server of gapir (cmd/gapir/cc/main.cpp)\<close>

subsection \<open>Data model\<close>

text \<open>
  A connection (\<^verbatim>\<open>GrpcReplayService* replayConn\<close>) is identified by a number. Each
  connection handler creates one \<^verbatim>\<open>Context\<close>; a pointer to that context is identified by
  the number of the connection that owns it. A null pointer is \<open>None\<close>. The end of a
  context's life, when its handler returns, is not modelled.
\<close>

type_synonym conn = nat

record PrewarmData =
  prewarm_service :: "conn option"
  prewarm_context :: "conn option"
  prewarm_id :: string
  cleanup_id :: string
  current_state :: string

text \<open>
  \<^verbatim>\<open>req->req_case()\<close>: \<open>Replay replay_id dependent_id\<close>, \<open>Prewarm prerun_id cleanup_id\<close>,
  and any other case (the \<^verbatim>\<open>default\<close> branch of the switch).
\<close>

datatype request =
    Replay string string
  | Prewarm string string
  | OtherRequest

text \<open>
  The calls the handler makes on its collaborators, in the order made. A call on a
  \<^verbatim>\<open>Context\<close> that returns \<^verbatim>\<open>bool\<close> carries the value returned. \<open>Interpret c None b\<close> is
  \<^verbatim>\<open>interpret()\<close> with its default argument, \<open>Interpret c (Some False) b\<close> is
  \<^verbatim>\<open>interpret(false)\<close>.
\<close>

datatype event =
    Initialize conn string bool
  | Prefetch conn
  | Interpret conn "bool option" bool
  | Cleanup conn bool
  | SendReplayFinished conn
  | PrimeState conn string string

text \<open>
  The state shared by all connection handlers and touched only under the mutex: the
  \<^verbatim>\<open>PrewarmData\<close>, the calls made so far, and how many results the contexts have
  returned so far. The contexts are external: the result of the \<open>n\<close>-th call that
  returns \<^verbatim>\<open>bool\<close> is \<open>ans n\<close>, for an arbitrary \<open>ans\<close>.
\<close>

record world =
  prewarm :: PrewarmData
  trace :: "event list"
  calls :: nat

definition empty_prewarm :: PrewarmData where
  "empty_prewarm =
     \<lparr>prewarm_service = None, prewarm_context = None,
      prewarm_id = [], cleanup_id = [], current_state = []\<rparr>"

definition init_world :: world where
  "init_world = \<lparr>prewarm = empty_prewarm, trace = [], calls = 0\<rparr>"

text \<open>Two families of results for concrete runs: every call succeeds; the calls
  numbered in \<open>ks\<close> fail.\<close>

definition all_ok :: "nat \<Rightarrow> bool" where
  "all_ok n = True"

definition fails_at :: "nat list \<Rightarrow> nat \<Rightarrow> bool" where
  "fails_at ks n = (n \<notin> set ks)"

subsection \<open>Calls on the collaborators\<close>

definition ctx_initialize :: "(nat \<Rightarrow> bool) \<Rightarrow> conn \<Rightarrow> string \<Rightarrow> world \<Rightarrow> bool \<times> world" where
  "ctx_initialize ans c s w =
     (ans (calls w),
      w\<lparr>trace := trace w @ [Initialize c s (ans (calls w))], calls := Suc (calls w)\<rparr>)"

definition ctx_prefetch :: "conn \<Rightarrow> world \<Rightarrow> world" where
  "ctx_prefetch c w = w\<lparr>trace := trace w @ [Prefetch c]\<rparr>"

definition ctx_interpret :: "(nat \<Rightarrow> bool) \<Rightarrow> conn \<Rightarrow> bool option \<Rightarrow> world \<Rightarrow> bool \<times> world" where
  "ctx_interpret ans c fl w =
     (ans (calls w),
      w\<lparr>trace := trace w @ [Interpret c fl (ans (calls w))], calls := Suc (calls w)\<rparr>)"

definition ctx_cleanup :: "(nat \<Rightarrow> bool) \<Rightarrow> conn \<Rightarrow> world \<Rightarrow> bool \<times> world" where
  "ctx_cleanup ans c w =
     (ans (calls w),
      w\<lparr>trace := trace w @ [Cleanup c (ans (calls w))], calls := Suc (calls w)\<rparr>)"

definition sendReplayFinished :: "conn \<Rightarrow> world \<Rightarrow> world" where
  "sendReplayFinished c w = w\<lparr>trace := trace w @ [SendReplayFinished c]\<rparr>"

definition primeState :: "conn \<Rightarrow> string \<Rightarrow> string \<Rightarrow> world \<Rightarrow> world" where
  "primeState c s cl w = w\<lparr>trace := trace w @ [PrimeState c s cl]\<rparr>"

subsection \<open>The two helpers of the connection handler\<close>

text \<open>A helper returns its value, or dereferences a null pointer.\<close>

datatype 'a outcome = Returned 'a | NullDeref

text \<open>\<^verbatim>\<open>cleanup_state\<close> (main.cpp, lines 140-160). \<open>has_cache\<close> is \<^verbatim>\<open>cache != nullptr\<close>.\<close>

definition cleanup_state :: "bool \<Rightarrow> (nat \<Rightarrow> bool) \<Rightarrow> world \<Rightarrow> bool outcome \<times> world" where
  "cleanup_state has_cache ans w =
     (case prewarm_context (prewarm w) of
        None \<Rightarrow> (NullDeref, w)
      | Some c \<Rightarrow>
          (case ctx_initialize ans c (cleanup_id (prewarm w)) w of
             (ok1, w1) \<Rightarrow>
               if \<not> ok1 then (Returned False, w1)
               else
                 (case ctx_interpret ans c None
                         (if has_cache then ctx_prefetch c w1 else w1) of
                    (ok, w3) \<Rightarrow>
                      if \<not> ok then (Returned False, w3)
                      else
                        (case ctx_cleanup ans c w3 of
                           (ok3, w4) \<Rightarrow>
                             if \<not> ok3 then (Returned False, w4)
                             else (Returned True, w4\<lparr>prewarm := empty_prewarm\<rparr>)))))"

text \<open>\<^verbatim>\<open>prime_state\<close> (lines 162-188), called by the handler of connection \<open>c\<close>, whose
  context is not null (line 135).\<close>

definition prime_state ::
  "conn \<Rightarrow> bool \<Rightarrow> (nat \<Rightarrow> bool) \<Rightarrow> string \<Rightarrow> string \<Rightarrow> world \<Rightarrow> bool \<times> world" where
  "prime_state c has_cache ans state cleanup w =
     (case ctx_initialize ans c state w of
        (ok1, w1) \<Rightarrow>
          if \<not> ok1 then (False, w1)
          else
            (case ctx_interpret ans c (Some False)
                    (if has_cache then ctx_prefetch c w1 else w1) of
               (ok, w3) \<Rightarrow>
                 if \<not> ok then (False, w3)
                 else if cleanup \<noteq> [] then
                   (True, w3\<lparr>prewarm :=
                      \<lparr>prewarm_service = Some c, prewarm_context = Some c,
                       prewarm_id = state, cleanup_id = cleanup, current_state = state\<rparr>\<rparr>)
                 else (True, w3)))"

subsection \<open>The request loop\<close>

text \<open>What one pass of the loop body does to the loop: go on to the next request
  (\<^verbatim>\<open>break\<close> out of the switch, or \<^verbatim>\<open>continue\<close>), \<^verbatim>\<open>return\<close> from the handler, or crash
  on a null pointer.\<close>

datatype control = Next | Exit | Crash

text \<open>The \<^verbatim>\<open>kReplay\<close> case, lines 201-209: getting into the dependent state. The
  values returned by \<^verbatim>\<open>cleanup_state\<close> and \<^verbatim>\<open>prime_state\<close> are not read.\<close>

definition replay_enter_state ::
  "conn \<Rightarrow> bool \<Rightarrow> (nat \<Rightarrow> bool) \<Rightarrow> string \<Rightarrow> world \<Rightarrow> unit outcome \<times> world" where
  "replay_enter_state c has_cache ans dependent_id w =
     (if current_state (prewarm w) \<noteq> dependent_id then
        (case cleanup_state has_cache ans w of
           (NullDeref, w1) \<Rightarrow> (NullDeref, w1)
         | (Returned _, w1) \<Rightarrow>
             if dependent_id \<noteq> []
             then (Returned (), snd (prime_state c has_cache ans dependent_id [] w1))
             else (Returned (), w1))
      else (Returned (), w))"

text \<open>The \<^verbatim>\<open>kReplay\<close> case, lines 210-234: running the replay.\<close>

definition replay_run ::
  "conn \<Rightarrow> bool \<Rightarrow> (nat \<Rightarrow> bool) \<Rightarrow> string \<Rightarrow> world \<Rightarrow> control \<times> world" where
  "replay_run c has_cache ans replay_id w =
     (case ctx_initialize ans c replay_id w of
        (ok1, w1) \<Rightarrow>
          if \<not> ok1 then (Next, w1)
          else
            (case ctx_interpret ans c None
                    (if has_cache then ctx_prefetch c w1 else w1) of
               (ok, w3) \<Rightarrow>
                 (case ctx_cleanup ans c (sendReplayFinished c w3) of
                    (ok3, w5) \<Rightarrow>
                      if \<not> ok3 then (Exit, w5)
                      else
                        (let w6 = w5\<lparr>prewarm := (prewarm w5)\<lparr>current_state := []\<rparr>\<rparr>
                         in case prewarm_service (prewarm w6) of
                              None \<Rightarrow> (Next, w6)
                            | Some s \<Rightarrow>
                                if prewarm_id (prewarm w6) \<noteq> [] \<and>
                                   cleanup_id (prewarm w6) \<noteq> []
                                then (Next, primeState s (prewarm_id (prewarm w6))
                                              (cleanup_id (prewarm w6)) w6)
                                else (Next, w6)))))"

text \<open>The body of the loop for one request (the switch, lines 197-262).\<close>

fun handle_request ::
  "conn \<Rightarrow> bool \<Rightarrow> (nat \<Rightarrow> bool) \<Rightarrow> request \<Rightarrow> world \<Rightarrow> control \<times> world" where
  "handle_request c has_cache ans (Replay replay_id dependent_id) w =
     (case replay_enter_state c has_cache ans dependent_id w of
        (NullDeref, w1) \<Rightarrow> (Crash, w1)
      | (Returned _, w1) \<Rightarrow> replay_run c has_cache ans replay_id w1)"
| "handle_request c has_cache ans (Prewarm prerun_id cleanup) w =
     (if current_state (prewarm w) = prerun_id
      then (Next, w\<lparr>prewarm := (prewarm w)\<lparr>cleanup_id := cleanup\<rparr>\<rparr>)
      else
        (case (if current_state (prewarm w) \<noteq> []
               then cleanup_state has_cache ans w else (Returned True, w)) of
           (NullDeref, w1) \<Rightarrow> (Crash, w1)
         | (Returned False, w1) \<Rightarrow> (Exit, w1)
         | (Returned True, w1) \<Rightarrow>
             (case prime_state c has_cache ans prerun_id cleanup w1 of
                (False, w2) \<Rightarrow> (Exit, w2)
              | (True, w2) \<Rightarrow> (Next, w2))))"
| "handle_request c has_cache ans OtherRequest w = (Next, w)"

text \<open>
  The loop (lines 190-263) over the requests that \<^verbatim>\<open>getReplayRequest\<close> will deliver; the
  end of the list is the null request. The result says how the loop ended, which
  requests were never read, and the state left behind.
\<close>

datatype ending = NoMoreRequests | Returned_Early | Crashed

fun session_loop ::
  "conn \<Rightarrow> bool \<Rightarrow> (nat \<Rightarrow> bool) \<Rightarrow> request list \<Rightarrow> world \<Rightarrow> ending \<times> request list \<times> world" where
  "session_loop c has_cache ans [] w = (NoMoreRequests, [], w)"
| "session_loop c has_cache ans (r # rs) w =
     (case handle_request c has_cache ans r w of
        (Next, w') \<Rightarrow> session_loop c has_cache ans rs w'
      | (Exit, w') \<Rightarrow> (Returned_Early, rs, w')
      | (Crash, w') \<Rightarrow> (Crashed, rs, w'))"

text \<open>A "replay finished" acknowledgement among the calls.\<close>

fun is_ack :: "event \<Rightarrow> bool" where
  "is_ack (SendReplayFinished c) = True"
| "is_ack _ = False"

subsection \<open>Several connections\<close>

text \<open>
  \<^verbatim>\<open>Setup\<close> hands the same \<^verbatim>\<open>PrewarmData\<close>, cache and mutex to the handler of every
  connection, and each loop body holds the mutex from its first to its last statement
  (the \<^verbatim>\<open>lock_guard\<close> of lines 199 and 237). A run of the server is therefore a list of
  pairs (connection, request) in the order in which the mutex was taken. A connection
  whose handler has returned reads no further request, and after a crash nothing runs.
\<close>

record server =
  shared :: world
  closed :: "conn list"
  crashed :: bool

definition init_server :: server where
  "init_server = \<lparr>shared = init_world, closed = [], crashed = False\<rparr>"

fun serve :: "bool \<Rightarrow> (nat \<Rightarrow> bool) \<Rightarrow> (conn \<times> request) list \<Rightarrow> server \<Rightarrow> server" where
  "serve has_cache ans [] s = s"
| "serve has_cache ans ((c, r) # rest) s =
     (if crashed s then s
      else if c \<in> set (closed s) then serve has_cache ans rest s
      else
        (case handle_request c has_cache ans r (shared s) of
           (Next, w') \<Rightarrow> serve has_cache ans rest (s\<lparr>shared := w'\<rparr>)
         | (Exit, w') \<Rightarrow> serve has_cache ans rest (s\<lparr>shared := w', closed := c # closed s\<rparr>)
         | (Crash, w') \<Rightarrow> s\<lparr>shared := w', crashed := True\<rparr>))"

text \<open>The two ids of the cleanup pairing are both empty or both non-empty.\<close>

definition ids_paired :: "PrewarmData \<Rightarrow> bool" where
  "ids_paired p = ((prewarm_id p = []) = (cleanup_id p = []))"

text \<open>A request that names its states: a Prewarm request with two non-empty ids;
  any Replay request.\<close>

fun names_states :: "request \<Rightarrow> bool" where
  "names_states (Prewarm prerun_id cleanup) = (prerun_id \<noteq> [] \<and> cleanup \<noteq> [])"
| "names_states _ = True"

text \<open>The invariant that the handlers keep when every Prewarm request names its
  states: the ids are paired, and a non-empty \<open>current_state\<close> comes with a non-empty
  \<open>prewarm_id\<close>.\<close>

definition prewarm_inv :: "PrewarmData \<Rightarrow> bool" where
  "prewarm_inv p = (ids_paired p \<and> (current_state p \<noteq> [] \<longrightarrow> prewarm_id p \<noteq> []))"

text \<open>A non-empty \<open>current_state\<close> comes with a registered context.\<close>

definition context_registered :: "PrewarmData \<Rightarrow> bool" where
  "context_registered p = (current_state p \<noteq> [] \<longrightarrow> prewarm_context p \<noteq> None)"

subsection \<open>Choosing the resource cache (\<^verbatim>\<open>createCache\<close>, lines 596-669)\<close>

record OnDiskCache =
  enabled :: bool
  cleanUp :: bool
  path :: string

text \<open>\<^verbatim>\<open>createCache\<close> is compiled when \<^verbatim>\<open>TARGET_OS\<close> is not Android.\<close>

datatype target_os = Linux | OSX | Windows

text \<open>
  What the operating system and the absent classes answer: \<^verbatim>\<open>getenv("TMPDIR")\<close>, whether
  \<^verbatim>\<open>/tmp\<close> is a directory, \<^verbatim>\<open>mkdtemp\<close> on a template (\<open>None\<close> is the null pointer), whether
  \<^verbatim>\<open>OnDiskResourceCache::create(path, cleanUp)\<close> returns a cache, whether \<^verbatim>\<open>fork\<close> creates
  a child, and \<^verbatim>\<open>memoryManager->getTopAddress()\<close>.
\<close>

record cache_env =
  env_TMPDIR :: "string option"
  tmp_is_dir :: bool
  mkdtemp :: "string \<Rightarrow> string option"
  onDisk_create :: "string \<Rightarrow> bool \<Rightarrow> bool"
  fork_ok :: bool
  getTopAddress :: nat

definition getTempOnDiskCachePath :: "cache_env \<Rightarrow> string" where
  "getTempOnDiskCachePath e =
     (case (case env_TMPDIR e of
              Some d \<Rightarrow> Some d
            | None \<Rightarrow> if tmp_is_dir e then Some ''/tmp'' else None) of
        None \<Rightarrow> []
      | Some tmpDir \<Rightarrow>
          (case mkdtemp e (tmpDir @ ''/gapir-cache.XXXXXX'') of
             None \<Rightarrow> []
           | Some p \<Rightarrow> p))"

datatype resource_cache = InMemoryResourceCache nat | OnDiskResourceCache string bool

text \<open>The arguments the forked monitor runs with: the cache path and
  \<^verbatim>\<open>useTempCacheFolder\<close>.\<close>

record monitor_args =
  onDiskCachePath :: string
  useTempCacheFolder :: bool

text \<open>The result in the parent process: the cache returned, and the monitor that was
  forked, if one was.\<close>

definition createCache ::
  "target_os \<Rightarrow> cache_env \<Rightarrow> OnDiskCache \<Rightarrow> resource_cache \<times> monitor_args option" where
  "createCache os e opts =
     (if os = Linux \<or> os = OSX then
        (if \<not> enabled opts then (InMemoryResourceCache (getTopAddress e), None)
         else
           (let useTemp = (path opts = []);
                cleanUpOnDiskCache = (if useTemp then True else cleanUp opts);
                p = (if useTemp then getTempOnDiskCachePath e else path opts)
            in if p = [] then (InMemoryResourceCache (getTopAddress e), None)
               else if \<not> onDisk_create e p cleanUpOnDiskCache
               then (InMemoryResourceCache (getTopAddress e), None)
               else (OnDiskResourceCache p cleanUpOnDiskCache,
                     if (cleanUpOnDiskCache \<or> useTemp) \<and> fork_ok e
                     then Some \<lparr>onDiskCachePath = p, useTempCacheFolder = useTemp\<rparr>
                     else None)))
      else (InMemoryResourceCache (getTopAddress e), None))"

subsection \<open>The forked monitor (lines 627-658)\<close>

text \<open>
  The calls of the child process, in order. \<open>Kill r\<close> is \<^verbatim>\<open>kill(ppid, 0)\<close> returning \<open>r\<close>;
  \<open>Usleep n\<close> is \<^verbatim>\<open>usleep(n)\<close>, \<open>n\<close> in microseconds; \<open>Opendir p ok\<close> is \<^verbatim>\<open>opendir\<close> returning
  a non-null pointer or not; \<open>Nftw_depth p n\<close> is the call
  \<^verbatim>\<open>nftw(p, callback, n, FTW_DEPTH)\<close>, followed by the calls its callback makes;
  \<open>Unlink p r\<close> and \<open>Rmdir p r\<close> are \<^verbatim>\<open>unlink(p)\<close> and \<^verbatim>\<open>rmdir(p)\<close> returning \<open>r\<close>;
  \<open>Reset_cache\<close> is \<^verbatim>\<open>onDiskCache.reset(nullptr)\<close>, the destructor of the cache;
  \<open>Exit_process n\<close> is \<^verbatim>\<open>exit(n)\<close>.
\<close>

datatype monitor_event =
    Kill int
  | Usleep nat
  | Opendir string bool
  | Nftw_depth string nat
  | Unlink string int
  | Rmdir string int
  | Reset_cache
  | Exit_process nat

text \<open>The callback given to \<^verbatim>\<open>nftw\<close> (lines 639-648): what it calls on an entry.\<close>

datatype typeflag = FTW_F | FTW_D | FTW_DNR | FTW_DP | FTW_NS | FTW_SL | FTW_SLN

datatype fs_call = Call_rmdir string | Call_unlink string

fun remove_entry :: "string \<Rightarrow> typeflag \<Rightarrow> fs_call" where
  "remove_entry fpath FTW_D = Call_rmdir fpath"
| "remove_entry fpath _ = Call_unlink fpath"

text \<open>
  The file tree under the cache path: a regular file, or a directory with its named
  entries. The C library and the kernel are not part of the repository; they are
  modelled as POSIX specifies them, in what the monitor uses:
  \<^item> \<^verbatim>\<open>unlink\<close> removes a regular file and fails (returns -1) on a directory;
  \<^item> \<^verbatim>\<open>rmdir\<close> removes a directory whose entries are all gone and fails otherwise;
  \<^item> \<^verbatim>\<open>nftw\<close> with \<^verbatim>\<open>FTW_DEPTH\<close> reports the entries of a directory before the directory
    itself, a regular file with \<^verbatim>\<open>FTW_F\<close> and a directory with \<^verbatim>\<open>FTW_DP\<close> (\<^verbatim>\<open>FTW_D\<close> is
    reported only without \<^verbatim>\<open>FTW_DEPTH\<close>), and stops as soon as the callback returns a
    value other than 0, returning that value.
  The state of a walk is the list of paths removed so far and the calls made so far.
\<close>

datatype fs_node = File | Dir "(string \<times> fs_node) list"

type_synonym walk_state = "string list \<times> monitor_event list"

definition sys_unlink :: "string \<Rightarrow> fs_node \<Rightarrow> string list \<Rightarrow> int" where
  "sys_unlink p node gone =
     (if p \<in> set gone then - 1 else (case node of File \<Rightarrow> 0 | Dir entries \<Rightarrow> - 1))"

definition sys_rmdir :: "string \<Rightarrow> fs_node \<Rightarrow> string list \<Rightarrow> int" where
  "sys_rmdir p node gone =
     (if p \<in> set gone then - 1
      else (case node of
              File \<Rightarrow> - 1
            | Dir entries \<Rightarrow>
                if list_all (\<lambda>(n, k). (p @ ''/'' @ n) \<in> set gone) entries then 0 else - 1))"

text \<open>One call of the callback on the entry \<open>node\<close> at \<open>fpath\<close>: it returns what
  \<^verbatim>\<open>rmdir\<close> or \<^verbatim>\<open>unlink\<close> returns.\<close>

definition run_callback ::
  "string \<Rightarrow> fs_node \<Rightarrow> typeflag \<Rightarrow> walk_state \<Rightarrow> int \<times> walk_state" where
  "run_callback fpath node flag st =
     (case remove_entry fpath flag of
        Call_rmdir q \<Rightarrow>
          (let r = sys_rmdir q node (fst st)
           in (r, (if r = 0 then q # fst st else fst st), snd st @ [Rmdir q r]))
      | Call_unlink q \<Rightarrow>
          (let r = sys_unlink q node (fst st)
           in (r, (if r = 0 then q # fst st else fst st), snd st @ [Unlink q r])))"

fun nftw_depth :: "string \<Rightarrow> fs_node \<Rightarrow> walk_state \<Rightarrow> int \<times> walk_state"
  and nftw_entries :: "string \<Rightarrow> (string \<times> fs_node) list \<Rightarrow> walk_state \<Rightarrow> int \<times> walk_state" where
  "nftw_depth p File st = run_callback p File FTW_F st"
| "nftw_depth p (Dir entries) st =
     (case nftw_entries p entries st of
        (r, st') \<Rightarrow> if r \<noteq> 0 then (r, st') else run_callback p (Dir entries) FTW_DP st')"
| "nftw_entries p [] st = (0, st)"
| "nftw_entries p ((n, k) # rest) st =
     (case nftw_depth (p @ ''/'' @ n) k st of
        (r, st') \<Rightarrow> if r \<noteq> 0 then (r, st') else nftw_entries p rest st')"

text \<open>
  The polling loop (lines 629-632) over the values that successive calls of
  \<^verbatim>\<open>kill(ppid, 0)\<close> return. The list is what was observed; when it ends with every value
  0 the loop has not been left, and the second component is \<open>False\<close>.
\<close>

fun wait_for_parent :: "int list \<Rightarrow> monitor_event list \<times> bool" where
  "wait_for_parent [] = ([], False)"
| "wait_for_parent (k # ks) =
     (if k = 0
      then (case wait_for_parent ks of (es, left) \<Rightarrow> (Kill 0 # Usleep 500000 # es, left))
      else ([Kill k], True))"

text \<open>
  The deletion, once the loop is left (lines 633-656). \<open>root\<close> is what is at the cache
  path at that time: nothing, or a file tree; \<^verbatim>\<open>opendir\<close> succeeds on a directory. The
  value of \<^verbatim>\<open>nftw\<close> is not read; \<^verbatim>\<open>rmdir\<close> on the cache path follows.
\<close>

definition delete_cache_files :: "monitor_args \<Rightarrow> fs_node option \<Rightarrow> monitor_event list" where
  "delete_cache_files a root =
     (case root of
        Some (Dir entries) \<Rightarrow>
          Opendir (onDiskCachePath a) True #
          (if useTempCacheFolder a then
             (case nftw_depth (onDiskCachePath a) (Dir entries) ([], []) of
                (r, gone, made) \<Rightarrow>
                  Nftw_depth (onDiskCachePath a) 64 # made @
                  [Rmdir (onDiskCachePath a)
                     (sys_rmdir (onDiskCachePath a) (Dir entries) gone)])
           else [Reset_cache])
      | _ \<Rightarrow> [Opendir (onDiskCachePath a) False])"

datatype monitor_status = Polling | Exited

definition monitor ::
  "monitor_args \<Rightarrow> fs_node option \<Rightarrow> int list \<Rightarrow> monitor_status \<times> monitor_event list" where
  "monitor a root kills =
     (case wait_for_parent kills of
        (es, False) \<Rightarrow> (Polling, es)
      | (es, True) \<Rightarrow> (Exited, es @ delete_cache_files a root @ [Exit_process 0]))"

text \<open>A call that deletes, or tries to delete, cache files.\<close>

fun is_deletion :: "monitor_event \<Rightarrow> bool" where
  "is_deletion (Nftw_depth p n) = True"
| "is_deletion (Unlink p r) = True"
| "is_deletion (Rmdir p r) = True"
| "is_deletion Reset_cache = True"
| "is_deletion _ = False"

text \<open>A deletion pass: the tree walk, or the destructor of the cache.\<close>

fun is_deletion_pass :: "monitor_event \<Rightarrow> bool" where
  "is_deletion_pass (Nftw_depth p n) = True"
| "is_deletion_pass Reset_cache = True"
| "is_deletion_pass _ = False"

subsection \<open>Concrete states and environments\<close>

text \<open>The state after \<open>Prewarm ''a'' ''b''\<close> on connection 0 of a fresh server with no
  cache, every call succeeding.\<close>

definition primed_ab :: world where
  "primed_ab = \<lparr>prewarm = \<lparr>prewarm_service = Some 0, prewarm_context = Some 0,
                   prewarm_id = ''a'', cleanup_id = ''b'', current_state = ''a''\<rparr>,
                 trace = [Initialize 0 ''a'' True, Interpret 0 (Some False) True], calls = 2\<rparr>"

text \<open>An environment with no \<^verbatim>\<open>TMPDIR\<close>, a directory \<^verbatim>\<open>/tmp\<close>, a \<^verbatim>\<open>mkdtemp\<close> that succeeds,
  and a disk on which every path but \<^verbatim>\<open>/ro/cache\<close> is writable.\<close>

definition mkdtemp_sample :: "string \<Rightarrow> string option" where
  "mkdtemp_sample t = Some ''/tmp/gapir-cache.Ab12Cd''"

definition create_sample :: "string \<Rightarrow> bool \<Rightarrow> bool" where
  "create_sample p cu = (p \<noteq> ''/ro/cache'')"

definition sample_env :: cache_env where
  "sample_env = \<lparr>env_TMPDIR = None, tmp_is_dir = True, mkdtemp = mkdtemp_sample,
                  onDisk_create = create_sample, fork_ok = True, getTopAddress = 1073741824\<rparr>"

text \<open>The monitor of a cache in a temporary directory; a cache directory with two
  files; and one with a sub-directory holding a file, followed by a file.\<close>

definition temp_monitor :: monitor_args where
  "temp_monitor = \<lparr>onDiskCachePath = ''/tmp/c'', useTempCacheFolder = True\<rparr>"

definition flat_cache :: fs_node where
  "flat_cache = Dir [(''a'', File), (''b'', File)]"

definition nested_cache :: fs_node where
  "nested_cache = Dir [(''d'', Dir [(''a'', File)]), (''b'', File)]"

section \<open>Properties\<close>

lemmas ctx_defs = ctx_initialize_def ctx_interpret_def ctx_cleanup_def ctx_prefetch_def
  sendReplayFinished_def primeState_def

subsection \<open>Facts about the helpers and the Replay case\<close>

lemma cleanup_state_trace:
  "\<exists>es. trace (snd (cleanup_state hc ans w)) = trace w @ es \<and> filter is_ack es = []"
  by (simp add: cleanup_state_def ctx_defs split: option.splits)

lemma prime_state_trace:
  "\<exists>es. trace (snd (prime_state c hc ans s cl w)) = trace w @ es \<and> filter is_ack es = []"
  by (simp add: prime_state_def ctx_defs)

lemma replay_enter_state_trace:
  "\<exists>es. trace (snd (replay_enter_state c hc ans dep w)) = trace w @ es \<and> filter is_ack es = []"
proof (cases "current_state (prewarm w) = dep")
  case True
  then show ?thesis by (simp add: replay_enter_state_def)
next
  case False
  obtain r w1 where cs: "cleanup_state hc ans w = (r, w1)" by (cases "cleanup_state hc ans w")
  from cleanup_state_trace[of hc ans w] cs obtain es1 where
    e1: "trace w1 = trace w @ es1" "filter is_ack es1 = []" by auto
  from prime_state_trace[of c hc ans dep "[]" w1] obtain es2 where
    e2: "trace (snd (prime_state c hc ans dep [] w1)) = trace w1 @ es2" "filter is_ack es2 = []"
    by auto
  show ?thesis
  proof (cases r)
    case NullDeref
    with False cs e1 show ?thesis by (simp add: replay_enter_state_def)
  next
    case (Returned b)
    show ?thesis
    proof (cases "dep = []")
      case True
      with False cs e1 Returned show ?thesis by (simp add: replay_enter_state_def)
    next
      case dn: False
      have "trace (snd (replay_enter_state c hc ans dep w)) = trace w @ (es1 @ es2)"
        using False cs Returned dn e1 e2 by (simp add: replay_enter_state_def)
      moreover have "filter is_ack (es1 @ es2) = []" using e1 e2 by simp
      ultimately show ?thesis by blast
    qed
  qed
qed

lemma cleanup_state_result:
  "prewarm_context (prewarm w) = Some pc \<Longrightarrow>
   fst (cleanup_state hc ans w) =
     Returned (ans (calls w) \<and> ans (Suc (calls w)) \<and> ans (Suc (Suc (calls w))))"
  by (simp add: cleanup_state_def ctx_defs)

lemma cleanup_state_cleanup_fails:
  "prewarm_context (prewarm w) = Some pc \<Longrightarrow> ans (calls w) \<Longrightarrow> ans (Suc (calls w)) \<Longrightarrow>
   \<not> ans (Suc (Suc (calls w))) \<Longrightarrow>
   trace (snd (cleanup_state hc ans w)) =
     trace w @ [Initialize pc (cleanup_id (prewarm w)) True] @ (if hc then [Prefetch pc] else []) @
       [Interpret pc None True, Cleanup pc False]"
  by (simp add: cleanup_state_def ctx_defs)

lemma cleanup_state_prewarm:
  "prewarm (snd (cleanup_state hc ans w)) = prewarm w \<or>
   prewarm (snd (cleanup_state hc ans w)) = empty_prewarm"
  by (simp add: cleanup_state_def ctx_defs split: option.splits)

lemma prime_state_prewarm:
  "prewarm (snd (prime_state c hc ans s cl w)) = prewarm w \<or>
   (cl \<noteq> [] \<and> prewarm (snd (prime_state c hc ans s cl w)) =
      \<lparr>prewarm_service = Some c, prewarm_context = Some c,
       prewarm_id = s, cleanup_id = cl, current_state = s\<rparr>)"
  by (simp add: prime_state_def ctx_defs)


lemma replay_run_fail:
  "\<not> ans (calls w1) \<Longrightarrow>
   replay_run c hc ans rid w1 = (Next, w1\<lparr>trace := trace w1 @ [Initialize c rid False], calls := Suc (calls w1)\<rparr>)"
  by (simp add: replay_run_def ctx_defs)

lemma replay_run_ok:
  "ans (calls w1) \<Longrightarrow> replay_run c hc ans rid w1 = (ctl, w') \<Longrightarrow>
   \<exists>post. trace w' = trace w1 @ [Initialize c rid True] @ (if hc then [Prefetch c] else []) @
       [Interpret c None (ans (Suc (calls w1))), SendReplayFinished c,
        Cleanup c (ans (Suc (Suc (calls w1))))] @ post \<and> filter is_ack post = []"
  by (auto simp add: replay_run_def ctx_defs Let_def split: option.splits if_splits)

lemma replay_run_done:
  "ans (calls w1) \<Longrightarrow> ans (Suc (Suc (calls w1))) \<Longrightarrow>
   \<exists>w'. replay_run c hc ans rid w1 = (Next, w') \<and>
     prewarm w' = (prewarm w1)\<lparr>current_state := []\<rparr> \<and>
     trace w' = trace w1 @ [Initialize c rid True] @ (if hc then [Prefetch c] else []) @
       [Interpret c None (ans (Suc (calls w1))), SendReplayFinished c, Cleanup c True] @
       (case prewarm_service (prewarm w1) of
          None \<Rightarrow> []
        | Some s \<Rightarrow>
            if prewarm_id (prewarm w1) \<noteq> [] \<and> cleanup_id (prewarm w1) \<noteq> []
            then [PrimeState s (prewarm_id (prewarm w1)) (cleanup_id (prewarm w1))]
            else [])"
  by (simp add: replay_run_def ctx_defs Let_def split: option.splits)

lemma replay_run_cleanup_fails:
  "ans (calls w1) \<Longrightarrow> \<not> ans (Suc (Suc (calls w1))) \<Longrightarrow>
   \<exists>w'. replay_run c hc ans rid w1 = (Exit, w') \<and> prewarm w' = prewarm w1 \<and>
     trace w' = trace w1 @ [Initialize c rid True] @ (if hc then [Prefetch c] else []) @
       [Interpret c None (ans (Suc (calls w1))), SendReplayFinished c, Cleanup c False]"
  by (simp add: replay_run_def ctx_defs)

lemma replay_run_prewarm:
  "prewarm (snd (replay_run c hc ans rid w)) = prewarm w \<or>
   prewarm (snd (replay_run c hc ans rid w)) = (prewarm w)\<lparr>current_state := []\<rparr>"
  by (simp add: replay_run_def ctx_defs Let_def split: option.splits)

lemma primed_ab_run:
  "session_loop 0 False all_ok [Prewarm ''a'' ''b''] init_world = (NoMoreRequests, [], primed_ab)"
  by (simp add: primed_ab_def init_world_def empty_prewarm_def prime_state_def ctx_defs all_ok_def)

subsection \<open>C1: the "replay finished" acknowledgement\<close>

text \<open>
  C1, as amended. Take a Replay request whose first part (getting into the dependent
  state) returns, leaving the state \<open>w1\<close>. If \<^verbatim>\<open>initialize(replay_id)\<close> succeeds, the calls
  of the request from there on are: initialize, prefetch when there is a cache,
  interpret, \<^verbatim>\<open>sendReplayFinished\<close>, cleanup, and then calls none of which is an
  acknowledgement; this holds whatever interpret and cleanup return. If
  \<^verbatim>\<open>initialize(replay_id)\<close> fails, the request ends with that call and the loop goes on to
  the next request. The first part sends no acknowledgement. So the request sends
  exactly one acknowledgement when initialize succeeds and none when it fails.
\<close>

theorem replay_acknowledgement:
  assumes enter: "replay_enter_state c hc ans dep w = (Returned u, w1)"
    and handle: "handle_request c hc ans (Replay rid dep) w = (ctl, w')"
  shows "(ans (calls w1) \<longrightarrow>
            (\<exists>post. trace w' = trace w1 @ [Initialize c rid True] @
                 (if hc then [Prefetch c] else []) @
                 [Interpret c None (ans (Suc (calls w1))), SendReplayFinished c,
                  Cleanup c (ans (Suc (Suc (calls w1))))] @ post \<and>
               filter is_ack post = [])) \<and>
         (\<not> ans (calls w1) \<longrightarrow> ctl = Next \<and> trace w' = trace w1 @ [Initialize c rid False]) \<and>
         (\<exists>pre. trace w1 = trace w @ pre \<and> filter is_ack pre = []) \<and>
         length (filter is_ack (drop (length (trace w)) (trace w'))) =
           (if ans (calls w1) then 1 else 0)"
proof -
  have run: "replay_run c hc ans rid w1 = (ctl, w')"
    using enter handle by simp
  from replay_enter_state_trace[of c hc ans dep w] enter obtain pre where
    pre: "trace w1 = trace w @ pre" "filter is_ack pre = []" by auto
  show ?thesis
  proof (cases "ans (calls w1)")
    case True
    from replay_run_ok[OF True run] obtain post where
      post: "trace w' = trace w1 @ [Initialize c rid True] @
                 (if hc then [Prefetch c] else []) @
                 [Interpret c None (ans (Suc (calls w1))), SendReplayFinished c,
                  Cleanup c (ans (Suc (Suc (calls w1))))] @ post"
        "filter is_ack post = []" by blast
    have n: "length (filter is_ack (drop (length (trace w)) (trace w'))) = 1"
      using pre post by simp
    have A: "\<exists>post. trace w' = trace w1 @ [Initialize c rid True] @
                 (if hc then [Prefetch c] else []) @
                 [Interpret c None (ans (Suc (calls w1))), SendReplayFinished c,
                  Cleanup c (ans (Suc (Suc (calls w1))))] @ post \<and>
               filter is_ack post = []"
      using post by blast
    have B: "\<exists>pre. trace w1 = trace w @ pre \<and> filter is_ack pre = []"
      using pre by blast
    show ?thesis
      using True A B n by (intro conjI impI) simp_all
  next
    case False
    from replay_run_fail[of ans w1 c hc rid] False run
    have r: "ctl = Next" "trace w' = trace w1 @ [Initialize c rid False]" by auto
    have n: "length (filter is_ack (drop (length (trace w)) (trace w'))) = 0"
      using pre r by simp
    have B: "\<exists>pre. trace w1 = trace w @ pre \<and> filter is_ack pre = []"
      using pre by blast
    show ?thesis
      using False r B n by (intro conjI impI) simp_all
  qed
qed

text \<open>C1, witness: a Replay request with no dependent state, every call succeeding.\<close>

theorem replay_acknowledgement_witness:
  "replay_enter_state 0 False all_ok [] init_world = (Returned (), init_world) \<and>
   length (filter is_ack (trace (snd (handle_request 0 False all_ok (Replay ''r'' []) init_world)))) = 1"
proof -
  have e: "replay_enter_state 0 False all_ok [] init_world = (Returned (), init_world)"
    by (simp add: replay_enter_state_def init_world_def empty_prewarm_def)
  obtain ctl w' where h: "handle_request 0 False all_ok (Replay ''r'' []) init_world = (ctl, w')"
    by (cases "handle_request 0 False all_ok (Replay ''r'' []) init_world")
  from replay_acknowledgement[OF e h] show ?thesis
    using e h by (simp add: all_ok_def init_world_def)
qed

text \<open>C1 as stated fails: when \<^verbatim>\<open>initialize(replay_id)\<close> fails the handler takes the
  \<^verbatim>\<open>continue\<close> of line 215, and the only call of the request is the failed initialize.\<close>

theorem replay_acknowledgement_counterexample:
  "session_loop 0 False (fails_at [0]) [Replay ''r'' []] init_world =
     (NoMoreRequests, [],
      \<lparr>prewarm = empty_prewarm, trace = [Initialize 0 ''r'' False], calls = 1\<rparr>)"
  by (simp add: replay_enter_state_def replay_run_def ctx_defs init_world_def empty_prewarm_def
      fails_at_def)

subsection \<open>C2: a failed cleanup ends the loop, except in the Replay path\<close>

text \<open>
  C2. Connection 0 sends \<open>Prewarm ''a'' ''b''\<close>, \<open>Replay ''r'' ''d''\<close> and
  \<open>Replay ''r2'' []\<close>; the fifth call on the context fails and every other call
  succeeds. The fifth call is the context cleanup inside \<^verbatim>\<open>cleanup_state\<close>, called by the
  first Replay request (line 203) because the current state is \<open>''a''\<close>. The value
  \<^verbatim>\<open>cleanup_state\<close> returns is not read there: the request goes on to prime \<open>''d''\<close>
  and to run \<open>''r''\<close>, and the loop then processes the third request and ends only
  when there are no more requests.
\<close>

theorem replay_path_cleanup_failure_ignored:
  "session_loop 0 False (fails_at [4]) [Prewarm ''a'' ''b'', Replay ''r'' ''d'', Replay ''r2'' []]
     init_world =
   (NoMoreRequests, [],
    \<lparr>prewarm = \<lparr>prewarm_service = Some 0, prewarm_context = Some 0,
                prewarm_id = ''a'', cleanup_id = ''b'', current_state = []\<rparr>,
     trace = [Initialize 0 ''a'' True, Interpret 0 (Some False) True,
              Initialize 0 ''b'' True, Interpret 0 None True, Cleanup 0 False,
              Initialize 0 ''d'' True, Interpret 0 (Some False) True,
              Initialize 0 ''r'' True, Interpret 0 None True,
              SendReplayFinished 0, Cleanup 0 True, PrimeState 0 ''a'' ''b'',
              Initialize 0 ''r2'' True, Interpret 0 None True,
              SendReplayFinished 0, Cleanup 0 True, PrimeState 0 ''a'' ''b''],
     calls = 13\<rparr>)"
  by (simp add: init_world_def empty_prewarm_def fails_at_def replay_enter_state_def
      replay_run_def cleanup_state_def prime_state_def ctx_defs)

text \<open>
  The same in general: in the Replay path, when the context cleanup inside
  \<^verbatim>\<open>cleanup_state\<close> fails, the first part of the request still returns, with the failed
  cleanup among the calls made.
\<close>

lemma replay_path_drops_cleanup_state_result:
  assumes "current_state (prewarm w) \<noteq> dep" and "prewarm_context (prewarm w) = Some pc"
    and "ans (calls w)" and "ans (Suc (calls w))" and "\<not> ans (Suc (Suc (calls w)))"
  shows "\<exists>w1. replay_enter_state c hc ans dep w = (Returned (), w1) \<and>
           Cleanup pc False \<in> set (trace w1)"
proof -
  obtain w0 where cs: "cleanup_state hc ans w = (Returned False, w0)"
    using cleanup_state_result[OF assms(2), of hc ans] assms(5)
    by (cases "cleanup_state hc ans w") auto
  have t0: "Cleanup pc False \<in> set (trace w0)"
    using cleanup_state_cleanup_fails[OF assms(2-5), of hc] cs by simp
  show ?thesis
  proof (cases "dep = []")
    case True
    with assms(1) cs t0 show ?thesis by (simp add: replay_enter_state_def)
  next
    case False
    from prime_state_trace[of c hc ans dep "[]" w0] obtain es where
      "trace (snd (prime_state c hc ans dep [] w0)) = trace w0 @ es" by blast
    with t0 have "Cleanup pc False \<in> set (trace (snd (prime_state c hc ans dep [] w0)))"
      by simp
    with False assms(1) cs show ?thesis by (simp add: replay_enter_state_def)
  qed
qed

text \<open>
  The two sites that do check. (1) When the context cleanup at the end of a Replay
  request fails (line 225), the loop returns at once: the requests after it are left
  unread and the last call is the failed cleanup. (2) When a Prewarm request for a
  state other than the current, non-empty one runs \<^verbatim>\<open>cleanup_state\<close> and one of its steps
  fails, its cleanup among them (line 247), the loop returns at once with the requests
  after it unread and the prewarm data unchanged.
\<close>

lemma checked_cleanup_failures_end_loop:
  "(replay_enter_state c hc ans dep w = (Returned u, w1) \<and>
      ans (calls w1) \<and> \<not> ans (Suc (Suc (calls w1))) \<longrightarrow>
      (\<exists>w'. session_loop c hc ans (Replay rid dep # rest) w = (Returned_Early, rest, w') \<and>
         prewarm w' = prewarm w1 \<and>
         trace w' = trace w1 @ [Initialize c rid True] @ (if hc then [Prefetch c] else []) @
           [Interpret c None (ans (Suc (calls w1))), SendReplayFinished c, Cleanup c False])) \<and>
   (current_state (prewarm w) \<noteq> prerun \<and> current_state (prewarm w) \<noteq> [] \<and>
      prewarm_context (prewarm w) = Some pc \<and>
      \<not> (ans (calls w) \<and> ans (Suc (calls w)) \<and> ans (Suc (Suc (calls w)))) \<longrightarrow>
      session_loop c hc ans (Prewarm prerun cl # rest) w =
        (Returned_Early, rest, snd (cleanup_state hc ans w)) \<and>
      prewarm (snd (cleanup_state hc ans w)) = prewarm w \<and>
      (ans (calls w) \<and> ans (Suc (calls w)) \<longrightarrow>
         trace (snd (cleanup_state hc ans w)) =
           trace w @ [Initialize pc (cleanup_id (prewarm w)) True] @
             (if hc then [Prefetch pc] else []) @ [Interpret pc None True, Cleanup pc False]))"
proof (intro conjI impI)
  assume a: "replay_enter_state c hc ans dep w = (Returned u, w1) \<and>
      ans (calls w1) \<and> \<not> ans (Suc (Suc (calls w1)))"
  then obtain w' where r: "replay_run c hc ans rid w1 = (Exit, w')"
    and p: "prewarm w' = prewarm w1"
    and t: "trace w' = trace w1 @ [Initialize c rid True] @ (if hc then [Prefetch c] else []) @
           [Interpret c None (ans (Suc (calls w1))), SendReplayFinished c, Cleanup c False]"
    using replay_run_cleanup_fails[of ans w1 c hc rid] by blast
  have "session_loop c hc ans (Replay rid dep # rest) w = (Returned_Early, rest, w')"
    using a r by simp
  with p t show "\<exists>w'. session_loop c hc ans (Replay rid dep # rest) w = (Returned_Early, rest, w') \<and>
         prewarm w' = prewarm w1 \<and>
         trace w' = trace w1 @ [Initialize c rid True] @ (if hc then [Prefetch c] else []) @
           [Interpret c None (ans (Suc (calls w1))), SendReplayFinished c, Cleanup c False]"
    by blast
next
  assume a: "current_state (prewarm w) \<noteq> prerun \<and> current_state (prewarm w) \<noteq> [] \<and>
      prewarm_context (prewarm w) = Some pc \<and>
      \<not> (ans (calls w) \<and> ans (Suc (calls w)) \<and> ans (Suc (Suc (calls w))))"
  obtain r w2 where cs: "cleanup_state hc ans w = (r, w2)" by (cases "cleanup_state hc ans w")
  have "r = Returned False"
    using a cs cleanup_state_result[of w pc hc ans] by simp
  with a cs show "session_loop c hc ans (Prewarm prerun cl # rest) w =
        (Returned_Early, rest, snd (cleanup_state hc ans w))"
    by simp
next
  assume a: "current_state (prewarm w) \<noteq> prerun \<and> current_state (prewarm w) \<noteq> [] \<and>
      prewarm_context (prewarm w) = Some pc \<and>
      \<not> (ans (calls w) \<and> ans (Suc (calls w)) \<and> ans (Suc (Suc (calls w))))"
  then show "prewarm (snd (cleanup_state hc ans w)) = prewarm w"
    by (auto simp add: cleanup_state_def ctx_defs)
next
  assume a: "current_state (prewarm w) \<noteq> prerun \<and> current_state (prewarm w) \<noteq> [] \<and>
      prewarm_context (prewarm w) = Some pc \<and>
      \<not> (ans (calls w) \<and> ans (Suc (calls w)) \<and> ans (Suc (Suc (calls w))))"
    and b: "ans (calls w) \<and> ans (Suc (calls w))"
  then show "trace (snd (cleanup_state hc ans w)) =
           trace w @ [Initialize pc (cleanup_id (prewarm w)) True] @
             (if hc then [Prefetch pc] else []) @ [Interpret pc None True, Cleanup pc False]"
    using cleanup_state_cleanup_fails[of w pc ans hc] by blast
qed

subsection \<open>C3: a Prewarm request for the state already primed\<close>





subsection \<open>C4: the two ids of the cleanup pairing\<close>

lemma prewarm_inv_empty: "prewarm_inv empty_prewarm"
  by (simp add: prewarm_inv_def ids_paired_def empty_prewarm_def)

lemma prewarm_inv_reset: "prewarm_inv p \<Longrightarrow> prewarm_inv (p\<lparr>current_state := []\<rparr>)"
  by (simp add: prewarm_inv_def ids_paired_def)

lemma cleanup_state_inv:
  "prewarm_inv (prewarm w) \<Longrightarrow> prewarm_inv (prewarm (snd (cleanup_state hc ans w)))"
  using cleanup_state_prewarm[of hc ans w] prewarm_inv_empty by auto

lemma prime_state_inv:
  "prewarm_inv (prewarm w) \<Longrightarrow> s \<noteq> [] \<or> cl = [] \<Longrightarrow>
   prewarm_inv (prewarm (snd (prime_state c hc ans s cl w)))"
  using prime_state_prewarm[of c hc ans s cl w]
  by (auto simp add: prewarm_inv_def ids_paired_def)

lemma replay_run_inv:
  "prewarm_inv (prewarm w) \<Longrightarrow> prewarm_inv (prewarm (snd (replay_run c hc ans rid w)))"
  using replay_run_prewarm[of c hc ans rid w] prewarm_inv_reset by auto

lemma replay_enter_state_inv:
  assumes "prewarm_inv (prewarm w)"
  shows "prewarm_inv (prewarm (snd (replay_enter_state c hc ans dep w)))"
proof -
  have 1: "prewarm_inv (prewarm (snd (cleanup_state hc ans w)))"
    using assms by (rule cleanup_state_inv)
  have 2: "prewarm_inv (prewarm (snd (prime_state c hc ans dep [] (snd (cleanup_state hc ans w)))))"
    using 1 by (rule prime_state_inv) simp
  show ?thesis
    using assms 1 2
    by (cases "cleanup_state hc ans w")
      (auto simp add: replay_enter_state_def split: outcome.splits)
qed

lemma handle_request_inv:
  assumes "names_states r" and "prewarm_inv (prewarm w)"
  shows "prewarm_inv (prewarm (snd (handle_request c hc ans r w)))"
proof (cases r)
  case (Replay rid dep)
  obtain o1 w1 where e: "replay_enter_state c hc ans dep w = (o1, w1)"
    by (cases "replay_enter_state c hc ans dep w")
  have 1: "prewarm_inv (prewarm w1)"
    using replay_enter_state_inv[OF assms(2), of c hc ans dep] e by simp
  show ?thesis
    using Replay e 1 replay_run_inv[OF 1, of c hc ans rid]
    by (cases o1) simp_all
next
  case (Prewarm prerun cl)
  then have ne: "prerun \<noteq> []" "cl \<noteq> []" using assms(1) by simp_all
  show ?thesis
  proof (cases "current_state (prewarm w) = prerun")
    case True
    then show ?thesis
      using Prewarm ne assms(2) by (auto simp add: prewarm_inv_def ids_paired_def)
  next
    case False
    define w0 where "w0 = (if current_state (prewarm w) \<noteq> [] then snd (cleanup_state hc ans w) else w)"
    have 0: "prewarm_inv (prewarm w0)"
      using assms(2) cleanup_state_inv[OF assms(2), of hc ans] by (simp add: w0_def)
    have 1: "prewarm_inv (prewarm (snd (prime_state c hc ans prerun cl w0)))"
      using 0 ne by (intro prime_state_inv) simp_all
    show ?thesis
      using Prewarm False 0 1 unfolding w0_def
      by (cases "cleanup_state hc ans w"; cases "prime_state c hc ans prerun cl w")
        (auto split: outcome.splits bool.splits prod.splits if_splits)
  qed
next
  case OtherRequest
  then show ?thesis using assms(2) by simp
qed

lemma serve_inv:
  "\<forall>(c, r) \<in> set sched. names_states r \<Longrightarrow> prewarm_inv (prewarm (shared s)) \<Longrightarrow>
   prewarm_inv (prewarm (shared (serve hc ans sched s)))"
proof (induction sched arbitrary: s)
  case Nil
  then show ?case by simp
next
  case (Cons a sched)
  obtain c r where a: "a = (c, r)" by (cases a)
  have nr: "names_states r" and rest: "\<forall>(c, r) \<in> set sched. names_states r"
    using Cons.prems(1) a by auto
  obtain ctl w' where h: "handle_request c hc ans r (shared s) = (ctl, w')"
    by (cases "handle_request c hc ans r (shared s)")
  have w': "prewarm_inv (prewarm w')"
    using handle_request_inv[OF nr Cons.prems(2), of c hc ans] h by simp
  show ?case
  proof (cases "crashed s \<or> c \<in> set (closed s)")
    case True
    then show ?thesis using a Cons.IH[OF rest Cons.prems(2)] Cons.prems(2) by auto
  next
    case False
    show ?thesis
    proof (cases ctl)
      case Next
      then show ?thesis
        using False a h Cons.IH[OF rest, of "s\<lparr>shared := w'\<rparr>"] w' by simp
    next
      case Exit
      then show ?thesis
        using False a h Cons.IH[OF rest, of "s\<lparr>shared := w', closed := c # closed s\<rparr>"] w' by simp
    next
      case Crash
      then show ?thesis using False a h w' by simp
    qed
  qed
qed

text \<open>
  C4, as amended. After any run of the server, on any number of connections, in which
  every Prewarm request carries a non-empty \<open>prerun_id\<close> and a non-empty \<open>cleanup_id\<close>
  (Replay requests are arbitrary), \<open>prewarm_id\<close> and \<open>cleanup_id\<close> are both empty or
  both non-empty.
\<close>

theorem ids_paired_reachable:
  assumes "\<forall>(c, r) \<in> set sched. names_states r"
  shows "(prewarm_id (prewarm (shared (serve hc ans sched init_server))) = [] \<and>
          cleanup_id (prewarm (shared (serve hc ans sched init_server))) = []) \<or>
         (prewarm_id (prewarm (shared (serve hc ans sched init_server))) \<noteq> [] \<and>
          cleanup_id (prewarm (shared (serve hc ans sched init_server))) \<noteq> [])"
proof -
  have "prewarm_inv (prewarm (shared init_server))"
    by (simp add: init_server_def init_world_def prewarm_inv_empty)
  from serve_inv[OF assms this, of hc ans]
  show ?thesis by (auto simp add: prewarm_inv_def ids_paired_def)
qed

lemma run3:
  "prewarm (shared (serve False all_ok
       [(0, Prewarm ''a'' ''b''), (1, Replay ''r'' ''a''), (1, Prewarm ''c'' ''d'')] init_server)) =
     \<lparr>prewarm_service = Some 1, prewarm_context = Some 1,
      prewarm_id = ''c'', cleanup_id = ''d'', current_state = ''c''\<rparr>"
  by (simp add: init_server_def init_world_def empty_prewarm_def all_ok_def
      replay_enter_state_def replay_run_def prime_state_def ctx_defs)

text \<open>C4, witness: two connections, three requests.\<close>

theorem ids_paired_reachable_witness:
  "names_states (Prewarm ''a'' ''b'') \<and> names_states (Replay ''r'' ''a'') \<and>
   names_states (Prewarm ''c'' ''d'') \<and>
   prewarm_id (prewarm (shared (serve False all_ok
       [(0, Prewarm ''a'' ''b''), (1, Replay ''r'' ''a''), (1, Prewarm ''c'' ''d'')] init_server))) = ''c'' \<and>
   cleanup_id (prewarm (shared (serve False all_ok
       [(0, Prewarm ''a'' ''b''), (1, Replay ''r'' ''a''), (1, Prewarm ''c'' ''d'')] init_server))) = ''d''"
proof -
  have n: "\<forall>(c, r) \<in> set [(0::nat, Prewarm ''a'' ''b''), (1, Replay ''r'' ''a''), (1, Prewarm ''c'' ''d'')].
      names_states r"
    by simp
  from ids_paired_reachable[OF n, of False all_ok, unfolded run3] show ?thesis
    unfolding run3 by simp
qed

text \<open>C4 as stated fails: a Prewarm request for the current state overwrites
  \<open>cleanup_id\<close> alone (line 243), with the empty string in the first run; in the second
  run the empty \<open>prerun_id\<close> equals the initial \<open>current_state\<close>.\<close>

theorem ids_paired_reachable_counterexample:
  "prewarm_id (prewarm (shared (serve False all_ok
       [(0, Prewarm ''a'' ''b''), (0, Prewarm ''a'' [])] init_server))) = ''a'' \<and>
   cleanup_id (prewarm (shared (serve False all_ok
       [(0, Prewarm ''a'' ''b''), (0, Prewarm ''a'' [])] init_server))) = [] \<and>
   prewarm_id (prewarm (shared (serve False all_ok [(0, Prewarm [] ''c'')] init_server))) = [] \<and>
   cleanup_id (prewarm (shared (serve False all_ok [(0, Prewarm [] ''c'')] init_server))) = ''c''"
  by (simp add: init_server_def init_world_def empty_prewarm_def all_ok_def
      prime_state_def ctx_defs)

subsection \<open>C5: \<^verbatim>\<open>cleanup_state\<close> changes the prewarm data only when every step succeeds\<close>

text \<open>
  C5. When \<^verbatim>\<open>cleanup_state\<close> runs on a registered context, it returns true exactly when
  its three steps (initialize to \<open>cleanup_id\<close>, interpret, context cleanup) all succeed.
  If a step fails it returns false and \<open>prewarm_id\<close>, \<open>cleanup_id\<close>, \<open>current_state\<close> and
  the prewarm target (service and context) are what they were; if all succeed the three
  ids are empty and the target is null.
\<close>

theorem cleanup_state_atomic:
  assumes "prewarm_context (prewarm w) = Some pc"
    and "cleanup_state has_cache ans w = (r, w')"
  shows "r = Returned (ans (calls w) \<and> ans (Suc (calls w)) \<and> ans (Suc (Suc (calls w)))) \<and>
         prewarm w' =
           (if ans (calls w) \<and> ans (Suc (calls w)) \<and> ans (Suc (Suc (calls w)))
            then \<lparr>prewarm_service = None, prewarm_context = None,
                  prewarm_id = [], cleanup_id = [], current_state = []\<rparr>
            else prewarm w)"
  using assms
  by (auto simp add: cleanup_state_def ctx_defs empty_prewarm_def split: if_splits)

text \<open>C5, witness: on the primed state above, once with every step succeeding and once
  with the context cleanup failing.\<close>

theorem cleanup_state_atomic_witness:
  "prewarm_context (prewarm primed_ab) = Some 0 \<and>
   fst (cleanup_state False all_ok primed_ab) = Returned True \<and>
   prewarm (snd (cleanup_state False all_ok primed_ab)) = empty_prewarm \<and>
   fst (cleanup_state False (fails_at [4]) primed_ab) = Returned False \<and>
   prewarm (snd (cleanup_state False (fails_at [4]) primed_ab)) = prewarm primed_ab"
proof -
  have c: "prewarm_context (prewarm primed_ab) = Some 0" by (simp add: primed_ab_def)
  have n: "calls primed_ab = 2" by (simp add: primed_ab_def)
  show ?thesis
    using c cleanup_state_atomic[OF c, of False all_ok "fst (cleanup_state False all_ok primed_ab)"
        "snd (cleanup_state False all_ok primed_ab)"]
      cleanup_state_atomic[OF c, of False "fails_at [4]" "fst (cleanup_state False (fails_at [4]) primed_ab)"
        "snd (cleanup_state False (fails_at [4]) primed_ab)"]
    by (simp add: n all_ok_def fails_at_def empty_prewarm_def)
qed

subsection \<open>C6: what \<^verbatim>\<open>prime_state\<close> records\<close>

text \<open>
  C6. \<^verbatim>\<open>prime_state(state, cleanup)\<close> on connection \<open>c\<close> returns true exactly when
  initialize and interpret both succeed. If it returns true and \<open>cleanup\<close> is not empty,
  the prewarm data are then \<open>current_state = state\<close>, \<open>cleanup_id = cleanup\<close>,
  \<open>prewarm_id = state\<close>, with connection \<open>c\<close> and its context as the target. If it
  returns true with \<open>cleanup\<close> empty, or returns false, the prewarm data are unchanged.
\<close>

theorem prime_state_records:
  assumes "prime_state c has_cache ans state cleanup w = (ok, w')"
  shows "ok = (ans (calls w) \<and> ans (Suc (calls w))) \<and>
         prewarm w' =
           (if ok \<and> cleanup \<noteq> []
            then \<lparr>prewarm_service = Some c, prewarm_context = Some c,
                  prewarm_id = state, cleanup_id = cleanup, current_state = state\<rparr>
            else prewarm w)"
  using assms
  by (auto simp add: prime_state_def ctx_defs split: if_splits)

text \<open>C6, witness: a successful prime with a cleanup id, one without, and a prime
  whose interpret fails.\<close>

theorem prime_state_records_witness:
  "prime_state 3 True all_ok ''s'' ''c'' init_world =
     (True, \<lparr>prewarm = \<lparr>prewarm_service = Some 3, prewarm_context = Some 3,
                  prewarm_id = ''s'', cleanup_id = ''c'', current_state = ''s''\<rparr>,
             trace = [Initialize 3 ''s'' True, Prefetch 3, Interpret 3 (Some False) True],
             calls = 2\<rparr>) \<and>
   prewarm (snd (prime_state 3 True all_ok ''s'' [] init_world)) = prewarm init_world \<and>
   prewarm (snd (prime_state 3 True (fails_at [1]) ''s'' ''c'' init_world)) = prewarm init_world"
proof -
  have a: "prime_state 3 True all_ok ''s'' ''c'' init_world =
     (True, \<lparr>prewarm = \<lparr>prewarm_service = Some 3, prewarm_context = Some 3,
                  prewarm_id = ''s'', cleanup_id = ''c'', current_state = ''s''\<rparr>,
             trace = [Initialize 3 ''s'' True, Prefetch 3, Interpret 3 (Some False) True],
             calls = 2\<rparr>)"
    by (simp add: prime_state_def ctx_defs all_ok_def init_world_def)
  obtain ok2 w2 where b: "prime_state 3 True all_ok ''s'' [] init_world = (ok2, w2)"
    by (cases "prime_state 3 True all_ok ''s'' [] init_world")
  obtain ok3 w3 where c: "prime_state 3 True (fails_at [1]) ''s'' ''c'' init_world = (ok3, w3)"
    by (cases "prime_state 3 True (fails_at [1]) ''s'' ''c'' init_world")
  from prime_state_records[OF a] prime_state_records[OF b] prime_state_records[OF c]
  show ?thesis using a b c by (simp add: fails_at_def init_world_def)
qed

subsection \<open>C7: after a Replay, the prime instruction to the registered target\<close>

text \<open>
  C7. Take a Replay request whose first part returns, leaving the state \<open>w1\<close>, whose
  \<^verbatim>\<open>initialize(replay_id)\<close> succeeds and whose final context cleanup succeeds. Then the
  loop goes on, \<open>current_state\<close> is empty and the rest of the prewarm data is as in
  \<open>w1\<close>, and after the cleanup call there is exactly one \<^verbatim>\<open>primeState(prewarm_id,
  cleanup_id)\<close> to the registered service when a service is registered and both ids are
  non-empty, and no call at all otherwise.
\<close>

theorem replay_prime_handoff:
  assumes enter: "replay_enter_state c hc ans dep w = (Returned u, w1)"
    and init_ok: "ans (calls w1)"
    and cleanup_ok: "ans (Suc (Suc (calls w1)))"
  shows "\<exists>w'. handle_request c hc ans (Replay rid dep) w = (Next, w') \<and>
     prewarm w' = (prewarm w1)\<lparr>current_state := []\<rparr> \<and>
     trace w' = trace w1 @ [Initialize c rid True] @ (if hc then [Prefetch c] else []) @
       [Interpret c None (ans (Suc (calls w1))), SendReplayFinished c, Cleanup c True] @
       (case prewarm_service (prewarm w1) of
          None \<Rightarrow> []
        | Some s \<Rightarrow>
            if prewarm_id (prewarm w1) \<noteq> [] \<and> cleanup_id (prewarm w1) \<noteq> []
            then [PrimeState s (prewarm_id (prewarm w1)) (cleanup_id (prewarm w1))]
            else [])"
  using replay_run_done[OF init_ok cleanup_ok, of c hc rid] enter by simp

text \<open>C7, witness: connection 1 replays on the state primed by connection 0; the
  prime instruction goes to connection 0.\<close>

theorem replay_prime_handoff_witness:
  "replay_enter_state 1 False all_ok ''a'' primed_ab = (Returned (), primed_ab) \<and>
   fst (handle_request 1 False all_ok (Replay ''r'' ''a'') primed_ab) = Next \<and>
   prewarm (snd (handle_request 1 False all_ok (Replay ''r'' ''a'') primed_ab)) =
     \<lparr>prewarm_service = Some 0, prewarm_context = Some 0,
      prewarm_id = ''a'', cleanup_id = ''b'', current_state = []\<rparr> \<and>
   trace (snd (handle_request 1 False all_ok (Replay ''r'' ''a'') primed_ab)) =
     [Initialize 0 ''a'' True, Interpret 0 (Some False) True,
      Initialize 1 ''r'' True, Interpret 1 None True, SendReplayFinished 1,
      Cleanup 1 True, PrimeState 0 ''a'' ''b'']"
proof -
  have e: "replay_enter_state 1 False all_ok ''a'' primed_ab = (Returned (), primed_ab)"
    by (simp add: replay_enter_state_def primed_ab_def)
  have a: "all_ok (calls primed_ab)" "all_ok (Suc (Suc (calls primed_ab)))"
    by (simp_all add: all_ok_def)
  from replay_prime_handoff[OF e a, of "''r''"] obtain w' where
    h: "handle_request 1 False all_ok (Replay ''r'' ''a'') primed_ab = (Next, w')"
    and p: "prewarm w' = (prewarm primed_ab)\<lparr>current_state := []\<rparr>"
    and t: "trace w' = trace primed_ab @ [Initialize 1 ''r'' True] @ (if False then [Prefetch 1] else []) @
       [Interpret 1 None (all_ok (Suc (calls primed_ab))), SendReplayFinished 1, Cleanup 1 True] @
       (case prewarm_service (prewarm primed_ab) of
          None \<Rightarrow> []
        | Some s \<Rightarrow>
            if prewarm_id (prewarm primed_ab) \<noteq> [] \<and> cleanup_id (prewarm primed_ab) \<noteq> []
            then [PrimeState s (prewarm_id (prewarm primed_ab)) (cleanup_id (prewarm primed_ab))]
            else [])"
    by blast
  have p': "prewarm w' = \<lparr>prewarm_service = Some 0, prewarm_context = Some 0,
      prewarm_id = ''a'', cleanup_id = ''b'', current_state = []\<rparr>"
    using p by (simp add: primed_ab_def)
  have t': "trace w' = [Initialize 0 ''a'' True, Interpret 0 (Some False) True,
      Initialize 1 ''r'' True, Interpret 1 None True, SendReplayFinished 1,
      Cleanup 1 True, PrimeState 0 ''a'' ''b'']"
    using t by (simp add: primed_ab_def all_ok_def)
  show ?thesis
    unfolding h using e p' t' by simp
qed

subsection \<open>C8: the fallback to the in-memory cache\<close>

lemma createCache_disabled:
  "\<not> enabled opts \<Longrightarrow> createCache os e opts = (InMemoryResourceCache (getTopAddress e), None)"
  by (simp add: createCache_def)

lemma createCache_no_temp:
  "enabled opts \<Longrightarrow> path opts = [] \<Longrightarrow> getTempOnDiskCachePath e = [] \<Longrightarrow>
   createCache os e opts = (InMemoryResourceCache (getTopAddress e), None)"
  by (simp add: createCache_def)

lemma getTemp_none:
  "(env_TMPDIR e = None \<and> \<not> tmp_is_dir e) \<or> (\<forall>t. mkdtemp e t = None) \<Longrightarrow>
   getTempOnDiskCachePath e = []"
  by (auto simp add: getTempOnDiskCachePath_def split: option.splits)

lemma createCache_create_fails:
  "enabled opts \<Longrightarrow>
   \<not> onDisk_create e (if path opts = [] then getTempOnDiskCachePath e else path opts)
          (path opts = [] \<or> cleanUp opts) \<Longrightarrow>
   createCache os e opts = (InMemoryResourceCache (getTopAddress e), None)"
  by (cases "path opts = []") (simp_all add: createCache_def Let_def)

lemma createCache_monitor:
  assumes "snd (createCache os e opts) = Some m"
  shows "(os = Linux \<or> os = OSX) \<and> enabled opts \<and> (cleanUp opts \<or> path opts = []) \<and>
      onDiskCachePath m = (if path opts = [] then getTempOnDiskCachePath e else path opts) \<and>
      useTempCacheFolder m = (path opts = []) \<and>
      onDisk_create e (onDiskCachePath m) True \<and>
      fst (createCache os e opts) = OnDiskResourceCache (onDiskCachePath m) True"
proof -
  have os: "os = Linux \<or> os = OSX"
    using assms by (cases "os = Linux \<or> os = OSX") (simp_all add: createCache_def)
  have en: "enabled opts"
    using assms os by (cases "enabled opts") (simp_all add: createCache_def)
  show ?thesis
  proof (cases "path opts = []")
    case True
    then show ?thesis
      using assms os en
      by (cases "getTempOnDiskCachePath e = []";
          cases "onDisk_create e (getTempOnDiskCachePath e) True"; cases "fork_ok e")
        (auto simp add: createCache_def Let_def)
  next
    case False
    then show ?thesis
      using assms os en
      by (cases "onDisk_create e (path opts) (cleanUp opts)"; cases "cleanUp opts";
          cases "fork_ok e")
        (auto simp add: createCache_def Let_def)
  qed
qed

lemma createCache_in_memory:
  assumes "fst (createCache os e opts) = InMemoryResourceCache n"
  shows "createCache os e opts = (InMemoryResourceCache (getTopAddress e), None)"
proof (cases "(os = Linux \<or> os = OSX) \<and> enabled opts")
  case False
  then show ?thesis by (auto simp add: createCache_def)
next
  case True
  show ?thesis
  proof (cases "path opts = []")
    case p: True
    show ?thesis
      using assms True p
      by (cases "getTempOnDiskCachePath e = []";
          cases "onDisk_create e (getTempOnDiskCachePath e) True")
        (auto simp add: createCache_def Let_def)
  next
    case p: False
    show ?thesis
      using assms True p
      by (cases "onDisk_create e (path opts) (cleanUp opts)")
        (auto simp add: createCache_def Let_def)
  qed
qed

text \<open>
  C8. \<^verbatim>\<open>createCache\<close> returns the in-memory cache of size \<^verbatim>\<open>getTopAddress()\<close>, and forks no
  monitor, when the disk cache is not enabled; when no path is given and no temporary
  directory is obtained (which is the case when \<^verbatim>\<open>TMPDIR\<close> is unset and \<^verbatim>\<open>/tmp\<close> is not a
  directory, and when \<^verbatim>\<open>mkdtemp\<close> fails); and when the on-disk cache cannot be created.
  Whenever it returns an in-memory cache, that cache has this size and no monitor was
  forked. A monitor is forked only on Linux or OSX, with the disk cache enabled and
  created at the path the monitor is given, and with cleanup requested or a temporary
  directory used.
\<close>

theorem createCache_fallback:
  "(\<not> enabled opts \<longrightarrow>
      createCache os e opts = (InMemoryResourceCache (getTopAddress e), None)) \<and>
   (enabled opts \<and> path opts = [] \<and> getTempOnDiskCachePath e = [] \<longrightarrow>
      createCache os e opts = (InMemoryResourceCache (getTopAddress e), None)) \<and>
   ((env_TMPDIR e = None \<and> \<not> tmp_is_dir e) \<or> (\<forall>t. mkdtemp e t = None) \<longrightarrow>
      getTempOnDiskCachePath e = []) \<and>
   (enabled opts \<and>
      \<not> onDisk_create e (if path opts = [] then getTempOnDiskCachePath e else path opts)
          (path opts = [] \<or> cleanUp opts) \<longrightarrow>
      createCache os e opts = (InMemoryResourceCache (getTopAddress e), None)) \<and>
   (snd (createCache os e opts) = Some m \<longrightarrow>
      (os = Linux \<or> os = OSX) \<and> enabled opts \<and> (cleanUp opts \<or> path opts = []) \<and>
      onDiskCachePath m = (if path opts = [] then getTempOnDiskCachePath e else path opts) \<and>
      useTempCacheFolder m = (path opts = []) \<and>
      onDisk_create e (onDiskCachePath m) True \<and>
      fst (createCache os e opts) = OnDiskResourceCache (onDiskCachePath m) True) \<and>
   ((\<exists>n. fst (createCache os e opts) = InMemoryResourceCache n) \<longrightarrow>
      createCache os e opts = (InMemoryResourceCache (getTopAddress e), None))"
  using createCache_disabled[of opts os e] createCache_no_temp[of opts e os] getTemp_none[of e]
    createCache_create_fails[of opts e os] createCache_monitor[of os e opts m]
    createCache_in_memory[of os e opts]
  by blast

text \<open>C8, witness: the cache disabled; no temporary directory; an unwritable path;
  and a temporary directory that is created, with its monitor.\<close>

theorem createCache_fallback_witness:
  "createCache Linux sample_env \<lparr>enabled = False, cleanUp = True, path = ''/var/cache''\<rparr> =
     (InMemoryResourceCache 1073741824, None) \<and>
   createCache Linux (sample_env\<lparr>tmp_is_dir := False\<rparr>) \<lparr>enabled = True, cleanUp = False, path = []\<rparr> =
     (InMemoryResourceCache 1073741824, None) \<and>
   createCache Linux sample_env \<lparr>enabled = True, cleanUp = True, path = ''/ro/cache''\<rparr> =
     (InMemoryResourceCache 1073741824, None) \<and>
   createCache Linux sample_env \<lparr>enabled = True, cleanUp = False, path = []\<rparr> =
     (OnDiskResourceCache ''/tmp/gapir-cache.Ab12Cd'' True,
      Some \<lparr>onDiskCachePath = ''/tmp/gapir-cache.Ab12Cd'', useTempCacheFolder = True\<rparr>)"
proof -
  define o1 where "o1 = \<lparr>enabled = False, cleanUp = True, path = ''/var/cache''\<rparr>"
  define o2 where "o2 = \<lparr>enabled = True, cleanUp = False, path = []\<rparr>"
  define o3 where "o3 = \<lparr>enabled = True, cleanUp = True, path = ''/ro/cache''\<rparr>"
  define e2 where "e2 = sample_env\<lparr>tmp_is_dir := False\<rparr>"
  define m where "m = \<lparr>onDiskCachePath = ''/tmp/gapir-cache.Ab12Cd'', useTempCacheFolder = True\<rparr>"
  have top: "getTopAddress sample_env = 1073741824" "getTopAddress e2 = 1073741824"
    by (simp_all add: sample_env_def e2_def)
  have "\<not> enabled o1" by (simp add: o1_def)
  with createCache_fallback[of o1 Linux sample_env m, THEN conjunct1]
  have 1: "createCache Linux sample_env o1 = (InMemoryResourceCache 1073741824, None)"
    by (simp add: top)
  have "(env_TMPDIR e2 = None \<and> \<not> tmp_is_dir e2) \<or> (\<forall>t. mkdtemp e2 t = None)"
    by (simp add: sample_env_def e2_def)
  with createCache_fallback[of o2 Linux e2 m, THEN conjunct2, THEN conjunct2, THEN conjunct1]
  have g: "getTempOnDiskCachePath e2 = []" by (rule mp)
  have "enabled o2 \<and> path o2 = [] \<and> getTempOnDiskCachePath e2 = []"
    using g by (simp add: o2_def)
  with createCache_fallback[of o2 Linux e2 m, THEN conjunct2, THEN conjunct1]
  have 2: "createCache Linux e2 o2 = (InMemoryResourceCache 1073741824, None)"
    by (simp add: top)
  have "enabled o3 \<and>
      \<not> onDisk_create sample_env (if path o3 = [] then getTempOnDiskCachePath sample_env else path o3)
          (path o3 = [] \<or> cleanUp o3)"
    by (simp add: o3_def sample_env_def create_sample_def)
  with createCache_fallback[of o3 Linux sample_env m, THEN conjunct2, THEN conjunct2,
      THEN conjunct2, THEN conjunct1]
  have 3: "createCache Linux sample_env o3 = (InMemoryResourceCache 1073741824, None)"
    by (simp add: top)
  have 4: "createCache Linux sample_env o2 = (OnDiskResourceCache ''/tmp/gapir-cache.Ab12Cd'' True, Some m)"
    by (simp add: createCache_def getTempOnDiskCachePath_def sample_env_def mkdtemp_sample_def
        create_sample_def o2_def m_def Let_def)
  show ?thesis
    using 1 2 3 4 unfolding o1_def o2_def o3_def e2_def m_def by simp
qed

subsection \<open>C9: the deletion made by the monitor\<close>

text \<open>
  C9. The parent is gone at the third poll, and the temporary cache directory holds
  a sub-directory \<open>d\<close> with a file \<open>a\<close>, and a file \<open>b\<close>. The walk unlinks \<open>d/a\<close>; then
  the directory \<open>d\<close> is reported with \<^verbatim>\<open>FTW_DP\<close>, which the callback's
  \<^verbatim>\<open>case FTW_D\<close> (line 642) does not match, so the callback calls \<^verbatim>\<open>unlink\<close> on it; that
  fails and ends the walk. The file \<open>b\<close> is never visited, \<^verbatim>\<open>rmdir\<close> of the cache
  directory fails, and the monitor exits: the deletion is not recursive, and \<open>d\<close>,
  \<open>b\<close> and the cache directory remain.
\<close>

theorem monitor_walk_stops_at_directory:
  "monitor temp_monitor (Some nested_cache) [0, 0, - 1] =
     (Exited,
      [Kill 0, Usleep 500000, Kill 0, Usleep 500000, Kill (- 1),
       Opendir ''/tmp/c'' True, Nftw_depth ''/tmp/c'' 64,
       Unlink ''/tmp/c/d/a'' 0, Unlink ''/tmp/c/d'' (- 1),
       Rmdir ''/tmp/c'' (- 1), Exit_process 0])"
  by (simp add: monitor_def delete_cache_files_def temp_monitor_def nested_cache_def
      run_callback_def sys_unlink_def sys_rmdir_def Let_def)

text \<open>
  With files only, every file is unlinked; the walk still fails on the cache
  directory itself, which is then removed by the \<^verbatim>\<open>rmdir\<close> of line 650.
\<close>

lemma monitor_flat_cache:
  "monitor temp_monitor (Some flat_cache) [0, 0, - 1] =
     (Exited,
      [Kill 0, Usleep 500000, Kill 0, Usleep 500000, Kill (- 1),
       Opendir ''/tmp/c'' True, Nftw_depth ''/tmp/c'' 64,
       Unlink ''/tmp/c/a'' 0, Unlink ''/tmp/c/b'' 0, Unlink ''/tmp/c'' (- 1),
       Rmdir ''/tmp/c'' 0, Exit_process 0])"
  by (simp add: monitor_def delete_cache_files_def temp_monitor_def flat_cache_def
      run_callback_def sys_unlink_def sys_rmdir_def Let_def)

text \<open>
  In general: under \<^verbatim>\<open>FTW_DEPTH\<close> the callback never calls \<^verbatim>\<open>rmdir\<close>, and the walk of a
  directory never returns 0.
\<close>

lemma run_callback_made:
  "flag \<noteq> FTW_D \<Longrightarrow>
   \<exists>r. snd (snd (run_callback p node flag st)) = snd st @ [Unlink p r]"
  by (cases flag) (simp_all add: run_callback_def Let_def)

lemma nftw_depth_made:
  "\<exists>es. snd (snd (nftw_depth p node st)) = snd st @ es \<and> (\<forall>e \<in> set es. \<exists>q r. e = Unlink q r)"
  "\<exists>es. snd (snd (nftw_entries p entries st)) = snd st @ es \<and> (\<forall>e \<in> set es. \<exists>q r. e = Unlink q r)"
proof (induction p node st and p entries st rule: nftw_depth_nftw_entries.induct)
  case (1 p st)
  from run_callback_made[of FTW_F p File st] show ?case by auto
next
  case (2 p entries st)
  obtain r st' where e: "nftw_entries p entries st = (r, st')"
    by (cases "nftw_entries p entries st")
  from 2 e obtain es where es: "snd st' = snd st @ es" "\<forall>e \<in> set es. \<exists>q r. e = Unlink q r"
    by auto
  show ?case
  proof (cases "r = 0")
    case False
    with e es show ?thesis by auto
  next
    case True
    from run_callback_made[of FTW_DP p "Dir entries" st'] obtain r2 where
      "snd (snd (run_callback p (Dir entries) FTW_DP st')) = snd st' @ [Unlink p r2]"
      by auto
    with es have "snd (snd (run_callback p (Dir entries) FTW_DP st')) = snd st @ (es @ [Unlink p r2])"
      "\<forall>e \<in> set (es @ [Unlink p r2]). \<exists>q r. e = Unlink q r"
      by auto
    with True e show ?thesis by (simp del: append_assoc)
  qed
next
  case (3 p st)
  then show ?case by simp
next
  case (4 p n k rest st)
  obtain r st' where e: "nftw_depth (p @ ''/'' @ n) k st = (r, st')"
    by (cases "nftw_depth (p @ ''/'' @ n) k st")
  from 4(1) e obtain es where es: "snd st' = snd st @ es" "\<forall>e \<in> set es. \<exists>q r. e = Unlink q r"
    by auto
  show ?case
  proof (cases "r = 0")
    case False
    with e es show ?thesis by auto
  next
    case True
    have "\<not> r \<noteq> 0" using True by simp
    from 4(2)[OF e[symmetric] this] obtain es2 where
      es2: "snd (snd (nftw_entries p rest st')) = snd st' @ es2"
        "\<forall>e \<in> set es2. \<exists>q r. e = Unlink q r"
      by auto
    with es have "snd (snd (nftw_entries p rest st')) = snd st @ (es @ es2)"
      "\<forall>e \<in> set (es @ es2). \<exists>q r. e = Unlink q r"
      by auto
    with True e show ?thesis by (simp del: append_assoc)
  qed
qed

lemma nftw_depth_directory_fails:
  "fst (nftw_depth p (Dir entries) st) \<noteq> 0"
proof -
  obtain r st' where e: "nftw_entries p entries st = (r, st')"
    by (cases "nftw_entries p entries st")
  show ?thesis
    using e by (cases "r = 0") (simp_all add: run_callback_def sys_unlink_def Let_def)
qed

text \<open>
  The rest of what C9 says holds of the code. The calls of the monitor are: a poll
  \<^verbatim>\<open>kill(ppid, 0)\<close>; after every poll that returns 0 a sleep of 500000 microseconds and
  the next poll; after the first poll that does not return 0, \<^verbatim>\<open>opendir\<close>, the deletion,
  and \<^verbatim>\<open>exit(0)\<close>. As long as every poll returns 0 the monitor is still polling and has
  made no other call. In every run there is at most one deletion pass; every deleting
  call comes after a poll that did not return 0, and is followed by the exit of the
  process.
\<close>

lemma wait_for_parent_trace:
  "wait_for_parent kills =
     (concat (map (\<lambda>k. [Kill 0, Usleep 500000]) (takeWhile (\<lambda>k. k = 0) kills)) @
        (case dropWhile (\<lambda>k. k = 0) kills of [] \<Rightarrow> [] | r # rest \<Rightarrow> [Kill r]),
      dropWhile (\<lambda>k. k = 0) kills \<noteq> [])"
  by (induction kills) auto

lemma polls_no_pass:
  "filter is_deletion_pass (concat (map (\<lambda>k. [Kill 0, Usleep 500000]) ks)) = []"
  by (induction ks) auto

lemma polls_not_deletion:
  "e \<in> set (concat (map (\<lambda>k. [Kill 0, Usleep 500000]) ks)) \<Longrightarrow> \<not> is_deletion e"
  by (induction ks) auto

lemma monitor_polling:
  assumes "dropWhile (\<lambda>k. k = 0) kills = []"
  shows "monitor a root kills = (Polling, concat (map (\<lambda>k. [Kill 0, Usleep 500000]) kills))"
proof -
  have tw: "takeWhile (\<lambda>k. k = 0) kills = kills"
    using assms by (metis takeWhile_dropWhile_id append_Nil2)
  show ?thesis
    unfolding monitor_def wait_for_parent_trace assms tw by simp
qed

lemma monitor_exited:
  assumes "dropWhile (\<lambda>k. k = 0) kills = r # rest"
  shows "monitor a root kills =
     (Exited, concat (map (\<lambda>k. [Kill 0, Usleep 500000]) (takeWhile (\<lambda>k. k = 0) kills)) @
        [Kill r] @ delete_cache_files a root @ [Exit_process 0])"
  unfolding monitor_def wait_for_parent_trace assms by simp

lemma split_after_prefix:
  "xs @ ys = pre @ e # post \<Longrightarrow> e \<notin> set xs \<Longrightarrow> \<exists>pre'. pre = xs @ pre' \<and> ys = pre' @ e # post"
proof (induction xs arbitrary: pre)
  case Nil
  then show ?case by simp
next
  case (Cons x xs)
  then obtain pre2 where p: "pre = x # pre2"
    by (cases pre) auto
  with Cons.prems have "xs @ ys = pre2 @ e # post" "e \<notin> set xs" by simp_all
  from Cons.IH[OF this] p show ?case by auto
qed

lemma unlinks_no_pass:
  "\<forall>e \<in> set es. \<exists>q r. e = Unlink q r \<Longrightarrow> filter is_deletion_pass es = []"
  by (induction es) auto

lemma delete_cache_files_passes:
  "length (filter is_deletion_pass (delete_cache_files a root)) \<le> 1"
proof (cases root)
  case None
  then show ?thesis by (simp add: delete_cache_files_def)
next
  case (Some node)
  show ?thesis
  proof (cases node)
    case File
    with Some show ?thesis by (simp add: delete_cache_files_def)
  next
    case (Dir entries)
    obtain r gone made where w:
      "nftw_depth (onDiskCachePath a) (Dir entries) ([], []) = (r, gone, made)"
      by (cases "nftw_depth (onDiskCachePath a) (Dir entries) ([], [])") auto
    from nftw_depth_made(1)[of "onDiskCachePath a" "Dir entries" "([], [])"] w
    have "\<forall>e \<in> set made. \<exists>q r. e = Unlink q r" by simp
    then have "filter is_deletion_pass made = []" by (rule unlinks_no_pass)
    with Some Dir w show ?thesis by (simp add: delete_cache_files_def)
  qed
qed

lemma monitor_deletion_place:
  assumes h: "snd (monitor a root kills) = pre @ e # post" and d: "is_deletion e"
  shows "(\<exists>r. r \<noteq> 0 \<and> Kill r \<in> set pre) \<and> fst (monitor a root kills) = Exited \<and>
      post \<noteq> [] \<and> last post = Exit_process 0"
proof (cases "dropWhile (\<lambda>k. k = 0) kills")
  case Nil
  have "e \<in> set (snd (monitor a root kills))" using h by simp
  then have "\<not> is_deletion e"
    using polls_not_deletion[of e kills] by (simp add: monitor_polling[OF Nil])
  with d show ?thesis by simp
next
  case (Cons r rest)
  let ?P = "concat (map (\<lambda>k. [Kill 0, Usleep 500000]) (takeWhile (\<lambda>k. k = 0) kills))"
  have r: "r \<noteq> 0"
    using hd_dropWhile[of "\<lambda>k. k = 0" kills] Cons by simp
  have m: "monitor a root kills =
     (Exited, ?P @ [Kill r] @ delete_cache_files a root @ [Exit_process 0])"
    by (rule monitor_exited[OF Cons])
  have eq: "(?P @ [Kill r]) @ (delete_cache_files a root @ [Exit_process 0]) = pre @ e # post"
    using h m by simp
  have notin: "e \<notin> set (?P @ [Kill r])"
    using d polls_not_deletion[of e "takeWhile (\<lambda>k. k = 0) kills"] by auto
  from split_after_prefix[OF eq notin] obtain pre' where
    p: "pre = (?P @ [Kill r]) @ pre'" and
    q: "delete_cache_files a root @ [Exit_process 0] = pre' @ e # post"
    by blast
  have k: "Kill r \<in> set pre" using p by simp
  have ne: "post \<noteq> []"
  proof
    assume "post = []"
    with q have "last (delete_cache_files a root @ [Exit_process 0]) = e"
      by (metis last_snoc)
    then have "e = Exit_process 0" by simp
    with d show False by simp
  qed
  have "last (delete_cache_files a root @ [Exit_process 0]) = last post"
    using q ne by (metis last_appendR last_ConsR list.distinct(1))
  then have l: "last post = Exit_process 0" by simp
  from r k m ne l show ?thesis by auto
qed

lemma monitor_deletes_once:
  "monitor a root kills =
     (case dropWhile (\<lambda>k. k = 0) kills of
        [] \<Rightarrow> (Polling, concat (map (\<lambda>k. [Kill 0, Usleep 500000]) kills))
      | r # rest \<Rightarrow>
          (Exited,
           concat (map (\<lambda>k. [Kill 0, Usleep 500000]) (takeWhile (\<lambda>k. k = 0) kills)) @
             [Kill r] @ delete_cache_files a root @ [Exit_process 0])) \<and>
   length (filter is_deletion_pass (snd (monitor a root kills))) \<le> 1 \<and>
   (\<forall>pre e post. snd (monitor a root kills) = pre @ e # post \<and> is_deletion e \<longrightarrow>
      (\<exists>r. r \<noteq> 0 \<and> Kill r \<in> set pre) \<and> fst (monitor a root kills) = Exited \<and>
      post \<noteq> [] \<and> last post = Exit_process 0)"
proof (intro conjI allI impI)
  show "monitor a root kills =
     (case dropWhile (\<lambda>k. k = 0) kills of
        [] \<Rightarrow> (Polling, concat (map (\<lambda>k. [Kill 0, Usleep 500000]) kills))
      | r # rest \<Rightarrow>
          (Exited,
           concat (map (\<lambda>k. [Kill 0, Usleep 500000]) (takeWhile (\<lambda>k. k = 0) kills)) @
             [Kill r] @ delete_cache_files a root @ [Exit_process 0]))"
  proof (cases "dropWhile (\<lambda>k. k = 0) kills")
    case Nil
    show ?thesis unfolding Nil using monitor_polling[OF Nil] by simp
  next
    case (Cons r rest)
    show ?thesis unfolding Cons using monitor_exited[OF Cons] by simp
  qed
next
  show "length (filter is_deletion_pass (snd (monitor a root kills))) \<le> 1"
  proof (cases "dropWhile (\<lambda>k. k = 0) kills")
    case Nil
    show ?thesis by (simp add: monitor_polling[OF Nil] polls_no_pass)
  next
    case (Cons r rest)
    show ?thesis
      using delete_cache_files_passes[of a root]
      by (simp add: monitor_exited[OF Cons] polls_no_pass)
  qed
next
  fix pre e post
  assume h: "snd (monitor a root kills) = pre @ e # post \<and> is_deletion e"
  then show "\<exists>r. r \<noteq> 0 \<and> Kill r \<in> set pre" "fst (monitor a root kills) = Exited"
    "post \<noteq> []" "last post = Exit_process 0"
    using monitor_deletion_place[of a root kills pre e post] by blast+
qed

subsection \<open>C10: \<^verbatim>\<open>cleanup_state\<close> on a null context\<close>

text \<open>
  C10. On a fresh server nothing is primed and \<open>prewarm_context\<close> is null. A first
  request \<open>Replay ''r'' ''d''\<close> finds \<open>current_state\<close> different from \<open>''d''\<close> and calls
  \<^verbatim>\<open>cleanup_state\<close> (line 203), which dereferences the null pointer (line 141).
\<close>

theorem replay_null_context:
  "prewarm_context (prewarm init_world) = None \<and>
   cleanup_state False all_ok init_world = (NullDeref, init_world) \<and>
   session_loop 0 False all_ok [Replay ''r'' ''d''] init_world = (Crashed, [], init_world)"
  by (simp add: init_world_def empty_prewarm_def cleanup_state_def replay_enter_state_def)

text \<open>
  The Prewarm case calls \<^verbatim>\<open>cleanup_state\<close> only under \<^verbatim>\<open>current_state != ""\<close> (line 246),
  and a non-empty \<open>current_state\<close> comes with a registered context in every state the
  server reaches. So a Prewarm request never dereferences a null pointer; the Replay
  case has no such guard.
\<close>

lemma handle_request_registered:
  assumes "context_registered (prewarm w)"
  shows "context_registered (prewarm (snd (handle_request c hc ans r w)))"
proof (cases r)
  case (Replay rid dep)
  obtain o1 w1 where e: "replay_enter_state c hc ans dep w = (o1, w1)"
    by (cases "replay_enter_state c hc ans dep w")
  have 1: "context_registered (prewarm w1)"
  proof -
    have a: "context_registered (prewarm (snd (cleanup_state hc ans w)))"
      using assms cleanup_state_prewarm[of hc ans w]
      by (auto simp add: context_registered_def empty_prewarm_def)
    have b: "context_registered (prewarm (snd (prime_state c hc ans dep [] (snd (cleanup_state hc ans w)))))"
      using a prime_state_prewarm[of c hc ans dep "[]" "snd (cleanup_state hc ans w)"] by auto
    show ?thesis
      using e assms a b
      by (cases "cleanup_state hc ans w")
        (auto simp add: replay_enter_state_def split: outcome.splits if_splits)
  qed
  have 2: "context_registered (prewarm (snd (replay_run c hc ans rid w1)))"
    using replay_run_prewarm[of c hc ans rid w1] 1 by (auto simp add: context_registered_def)
  show ?thesis using Replay e 1 2 by (cases o1) simp_all
next
  case (Prewarm prerun cl)
  show ?thesis
  proof (cases "current_state (prewarm w) = prerun")
    case True
    then show ?thesis using Prewarm assms by (simp add: context_registered_def)
  next
    case False
    define w0 where "w0 = (if current_state (prewarm w) \<noteq> [] then snd (cleanup_state hc ans w) else w)"
    have 0: "context_registered (prewarm w0)"
      using assms cleanup_state_prewarm[of hc ans w]
      by (auto simp add: w0_def context_registered_def empty_prewarm_def)
    have 1: "context_registered (prewarm (snd (prime_state c hc ans prerun cl w0)))"
      using 0 prime_state_prewarm[of c hc ans prerun cl w0]
      by (auto simp add: context_registered_def)
    show ?thesis
      using Prewarm False 0 1 unfolding w0_def
      by (cases "cleanup_state hc ans w"; cases "prime_state c hc ans prerun cl w")
        (auto split: outcome.splits bool.splits prod.splits if_splits)
  qed
next
  case OtherRequest
  then show ?thesis using assms by simp
qed

lemma serve_registered:
  "context_registered (prewarm (shared s)) \<Longrightarrow>
   context_registered (prewarm (shared (serve hc ans sched s)))"
proof (induction sched arbitrary: s)
  case Nil
  then show ?case by simp
next
  case (Cons a sched)
  obtain c r where a: "a = (c, r)" by (cases a)
  obtain ctl w' where h: "handle_request c hc ans r (shared s) = (ctl, w')"
    by (cases "handle_request c hc ans r (shared s)")
  have w': "context_registered (prewarm w')"
    using handle_request_registered[OF Cons.prems, of c hc ans r] h by simp
  show ?case
  proof (cases "crashed s \<or> c \<in> set (closed s)")
    case True
    then show ?thesis using a Cons.IH[OF Cons.prems] Cons.prems by auto
  next
    case False
    then show ?thesis
      using a h w' Cons.IH[of "s\<lparr>shared := w'\<rparr>"]
        Cons.IH[of "s\<lparr>shared := w', closed := c # closed s\<rparr>"]
      by (cases ctl) simp_all
  qed
qed

lemma prewarm_path_guarded:
  "fst (handle_request c hc ans (Prewarm prerun cl)
          (shared (serve hc ans sched init_server))) \<noteq> Crash"
proof -
  define w where "w = shared (serve hc ans sched init_server)"
  have "context_registered (prewarm (shared init_server))"
    by (simp add: context_registered_def init_server_def init_world_def empty_prewarm_def)
  then have r: "context_registered (prewarm w)"
    unfolding w_def by (rule serve_registered)
  show ?thesis
  proof (cases "current_state (prewarm w) = prerun")
    case True
    then show ?thesis by (simp add: w_def[symmetric])
  next
    case False
    show ?thesis
    proof (cases "current_state (prewarm w) = []")
      case True
      with False show ?thesis
        by (simp add: w_def[symmetric] split: prod.splits bool.splits)
    next
      case ne: False
      with r obtain pc where pc: "prewarm_context (prewarm w) = Some pc"
        by (auto simp add: context_registered_def)
      obtain b w1 where cs: "cleanup_state hc ans w = (Returned b, w1)"
        using cleanup_state_result[OF pc, of hc ans] by (cases "cleanup_state hc ans w") auto
      show ?thesis
        using False ne cs
        by (simp add: w_def[symmetric] split: prod.splits bool.splits)
    qed
  qed
qed

end
